theory Spec2Isabelle
  imports Complex_Main
begin

section \<open>JavaScript values used by the slide synchroniser\<close>

text \<open>
  The component computes with JavaScript numbers and with values decoded from JSON
  (broadcast payloads and presence records). A number is \<open>NaN\<close>, an infinity or a finite
  value; finite values are kept as exact rationals (every double is one), the rounding of
  a sum or of a parsed literal to the nearest double and the sign of zero are not
  represented. Strings are sequences of code units below 256.
\<close>

datatype jsnum = NaN | NegInf | Fin rat | PosInf

fun js_lt :: "jsnum \<Rightarrow> jsnum \<Rightarrow> bool" where
  "js_lt NaN _ = False"
| "js_lt _ NaN = False"
| "js_lt NegInf NegInf = False"
| "js_lt NegInf _ = True"
| "js_lt (Fin a) (Fin b) = (a < b)"
| "js_lt (Fin a) PosInf = True"
| "js_lt (Fin a) NegInf = False"
| "js_lt PosInf _ = False"

fun js_neg :: "jsnum \<Rightarrow> jsnum" where
  "js_neg NaN = NaN"
| "js_neg NegInf = PosInf"
| "js_neg (Fin a) = Fin (- a)"
| "js_neg PosInf = NegInf"

fun js_add :: "jsnum \<Rightarrow> jsnum \<Rightarrow> jsnum" where
  "js_add NaN _ = NaN"
| "js_add _ NaN = NaN"
| "js_add (Fin a) (Fin b) = Fin (a + b)"
| "js_add (Fin a) y = y"
| "js_add x (Fin b) = x"
| "js_add PosInf PosInf = PosInf"
| "js_add NegInf NegInf = NegInf"
| "js_add PosInf NegInf = NaN"
| "js_add NegInf PosInf = NaN"

definition js_sub :: "jsnum \<Rightarrow> jsnum \<Rightarrow> jsnum" where
  "js_sub x y = js_add x (js_neg y)"

definition Number_isNaN :: "jsnum \<Rightarrow> bool" where
  "Number_isNaN x = (x = NaN)"

text \<open>
  \<open>Math.max(...xs)\<close> and \<open>Math.min(...xs)\<close>: \<open>NaN\<close> as soon as one argument is \<open>NaN\<close>,
  otherwise the running extremum, which starts at minus (plus) infinity.
\<close>

definition Math_max :: "jsnum list \<Rightarrow> jsnum" where
  "Math_max xs =
     (if NaN \<in> set xs then NaN
      else foldl (\<lambda>highest number. if js_lt highest number then number else highest) NegInf xs)"

definition Math_min :: "jsnum list \<Rightarrow> jsnum" where
  "Math_min xs =
     (if NaN \<in> set xs then NaN
      else foldl (\<lambda>lowest number. if js_lt number lowest then number else lowest) PosInf xs)"

subsection \<open>Values decoded from JSON\<close>

datatype json =
    JNull
  | JBool bool
  | JNum rat
  | JStr string
  | JArr "json list"
  | JObj "(string \<times> json) list"

text \<open>
  Property access \<open>v.k\<close> on a value that is neither \<open>null\<close> nor \<open>undefined\<close>. The keys
  read by the component are \<open>payload\<close>, \<open>role\<close> and \<open>index\<close>; no built-in prototype
  defines them, so only an object that owns the key yields a value. \<open>None\<close> is
  \<open>undefined\<close>.
\<close>

fun getProp :: "json \<Rightarrow> string \<Rightarrow> json option" where
  "getProp (JObj kvs) k = map_of kvs k"
| "getProp _ k = None"

text \<open>Optional chaining \<open>v?.k\<close> and nullish coalescing \<open>v ?? d\<close>.\<close>

definition optChain :: "json option \<Rightarrow> string \<Rightarrow> json option" where
  "optChain v k = (case v of None \<Rightarrow> None | Some JNull \<Rightarrow> None | Some obj \<Rightarrow> getProp obj k)"

definition nullish :: "json option \<Rightarrow> json \<Rightarrow> json" where
  "nullish v d = (case v of None \<Rightarrow> d | Some JNull \<Rightarrow> d | Some x \<Rightarrow> x)"

subsection \<open>String to number\<close>

definition isStrWhiteSpaceChar :: "char \<Rightarrow> bool" where
  "isStrWhiteSpaceChar c = ((of_char c :: nat) \<in> {9, 10, 11, 12, 13, 32, 160})"

definition trim :: "string \<Rightarrow> string" where
  "trim s = dropWhile isStrWhiteSpaceChar (rev (dropWhile isStrWhiteSpaceChar (rev s)))"

definition isDecimalDigit :: "char \<Rightarrow> bool" where
  "isDecimalDigit c = (48 \<le> (of_char c :: nat) \<and> (of_char c :: nat) \<le> 57)"

definition isHexDigit :: "char \<Rightarrow> bool" where
  "isHexDigit c =
     (isDecimalDigit c \<or> (65 \<le> (of_char c :: nat) \<and> (of_char c :: nat) \<le> 70)
       \<or> (97 \<le> (of_char c :: nat) \<and> (of_char c :: nat) \<le> 102))"

definition isOctalDigit :: "char \<Rightarrow> bool" where
  "isOctalDigit c = (48 \<le> (of_char c :: nat) \<and> (of_char c :: nat) \<le> 55)"

definition isBinaryDigit :: "char \<Rightarrow> bool" where
  "isBinaryDigit c = (c = CHR ''0'' \<or> c = CHR ''1'')"

definition digitValue :: "char \<Rightarrow> nat" where
  "digitValue c =
     (let n = (of_char c :: nat)
      in if n \<le> 57 then n - 48 else if n \<le> 70 then n - 55 else n - 87)"

definition digitsValue :: "nat \<Rightarrow> string \<Rightarrow> nat" where
  "digitsValue base ds = foldl (\<lambda>acc c. acc * base + digitValue c) 0 ds"

text \<open>The exponent part that may follow the mantissa; \<open>None\<close> when the rest is malformed.\<close>

definition signedInteger :: "string \<Rightarrow> int option" where
  "signedInteger s =
     (let ds = (case s of c # t \<Rightarrow> if c = CHR ''+'' \<or> c = CHR ''-'' then t else s | [] \<Rightarrow> s)
      in if ds = [] \<or> \<not> list_all isDecimalDigit ds then None
         else Some (if hd s = CHR ''-'' then - int (digitsValue 10 ds) else int (digitsValue 10 ds)))"

definition exponentPart :: "string \<Rightarrow> int option" where
  "exponentPart s =
     (case s of
        [] \<Rightarrow> Some 0
      | c # t \<Rightarrow> if c = CHR ''e'' \<or> c = CHR ''E'' then signedInteger t else None)"

definition strUnsignedDecimalLiteral :: "string \<Rightarrow> jsnum" where
  "strUnsignedDecimalLiteral s =
     (if s = ''Infinity'' then PosInf
      else
        let ip = takeWhile isDecimalDigit s;
            r1 = dropWhile isDecimalDigit s;
            fp = (case r1 of c # t \<Rightarrow> if c = CHR ''.'' then takeWhile isDecimalDigit t else []
                  | [] \<Rightarrow> []);
            r2 = (case r1 of c # t \<Rightarrow> if c = CHR ''.'' then dropWhile isDecimalDigit t else r1
                  | [] \<Rightarrow> [])
        in if ip = [] \<and> fp = [] then NaN
           else case exponentPart r2 of
                  None \<Rightarrow> NaN
                | Some e \<Rightarrow>
                    Fin ((of_nat (digitsValue 10 ip)
                          + of_nat (digitsValue 10 fp) / 10 ^ length fp) * 10 powi e))"

definition nonDecimalLiteral :: "(char \<Rightarrow> bool) \<Rightarrow> nat \<Rightarrow> string \<Rightarrow> jsnum" where
  "nonDecimalLiteral ok base ds =
     (if ds \<noteq> [] \<and> list_all ok ds then Fin (of_nat (digitsValue base ds)) else NaN)"

definition StringToNumber :: "string \<Rightarrow> jsnum" where
  "StringToNumber s =
     (let t = trim s
      in case t of
           [] \<Rightarrow> Fin 0
         | c # u \<Rightarrow>
             if c = CHR ''+'' then strUnsignedDecimalLiteral u
             else if c = CHR ''-'' then js_neg (strUnsignedDecimalLiteral u)
             else if c = CHR ''0'' \<and> u \<noteq> [] \<and> (hd u = CHR ''x'' \<or> hd u = CHR ''X'')
               then nonDecimalLiteral isHexDigit 16 (tl u)
             else if c = CHR ''0'' \<and> u \<noteq> [] \<and> (hd u = CHR ''o'' \<or> hd u = CHR ''O'')
               then nonDecimalLiteral isOctalDigit 8 (tl u)
             else if c = CHR ''0'' \<and> u \<noteq> [] \<and> (hd u = CHR ''b'' \<or> hd u = CHR ''B'')
               then nonDecimalLiteral isBinaryDigit 2 (tl u)
             else strUnsignedDecimalLiteral t)"

text \<open>
  \<open>Number(v)\<close>. An array is converted through its string form, the elements joined
  by commas with \<open>null\<close> as the empty string: the empty array reads as \<open>0\<close>, a
  one-element array reads as its element's string form (a number prints to a string
  that parses back to itself), and a longer array contains a comma, which no numeric
  literal does. An object's string form is not a numeric literal either.
\<close>

fun Number :: "json \<Rightarrow> jsnum" where
  "Number JNull = Fin 0"
| "Number (JBool b) = (if b then Fin 1 else Fin 0)"
| "Number (JNum r) = Fin r"
| "Number (JStr s) = StringToNumber s"
| "Number (JArr []) = Fin 0"
| "Number (JArr [JNull]) = Fin 0"
| "Number (JArr [JBool b]) = NaN"
| "Number (JArr [JNum r]) = Fin r"
| "Number (JArr [JStr s]) = StringToNumber s"
| "Number (JArr [JArr xs]) = Number (JArr xs)"
| "Number (JArr [JObj kvs]) = NaN"
| "Number (JArr (x # y # zs)) = NaN"
| "Number (JObj kvs) = NaN"

subsection \<open>Lower case\<close>

definition toLowerChar :: "char \<Rightarrow> char" where
  "toLowerChar c =
     (let n = (of_char c :: nat)
      in if (65 \<le> n \<and> n \<le> 90) \<or> (192 \<le> n \<and> n \<le> 222 \<and> n \<noteq> 215)
         then char_of (n + 32) else c)"

definition toLowerCase :: "string \<Rightarrow> string" where
  "toLowerCase s = map toLowerChar s"

section \<open>The room page: presenter flag\<close>

text \<open>
  \<open>Page\<close> reads the optional query parameter \<open>presenter\<close> (\<open>None\<close> when absent):
  \<^verbatim>\<open>typeof presenter !== "undefined" &&
  ["1", "true", "yes"].includes(String(presenter).toLowerCase())\<close>
\<close>

definition includes_arr :: "'a list \<Rightarrow> 'a \<Rightarrow> bool" where
  "includes_arr xs x = List.member xs x"

definition isPresenterParam :: "string option \<Rightarrow> bool" where
  "isPresenterParam presenter =
     (case presenter of
        None \<Rightarrow> False
      | Some p \<Rightarrow> includes_arr [''1'', ''true'', ''yes''] (toLowerCase p))"

section \<open>The LiveSlides component\<close>

record Slide =
  src :: string
  alt :: "string option"

record Props =
  roomId :: string
  slides :: "Slide list"
  isPresenter :: bool

text \<open>
  Calls made on the realtime channel, each with the channel's topic: \<open>subscribe\<close>,
  \<open>unsubscribe\<close>, \<open>track({role, index})\<close> and
  \<open>send({type: "broadcast", event: "slide", payload: {index}})\<close>.
\<close>

datatype call =
    Subscribe string
  | Unsubscribe string
  | Track string string jsnum
  | Send string jsnum

text \<open>
  A mounted instance: its props, the two state variables, \<open>channelRef.current\<close>, and the
  calls it has issued so far. The callbacks registered on the channel are created by
  the channel effect, whose dependency array is \<open>[roomId, isPresenter, userKey]\<close>; they
  keep the \<open>liveFollow\<close> and \<open>index\<close> of the render in which that effect last ran.
  These captured values are the fields \<open>cb_liveFollow\<close> and \<open>cb_index\<close>. The slide list
  is the constant that \<open>Page\<close> imports, so it does not change while mounted. The
  rendered markup, which reads \<open>slides[index]\<close>, is not part of the state.
\<close>

record Instance =
  props :: Props
  index :: jsnum
  liveFollow :: bool
  channelRef :: "string option"
  cb_liveFollow :: bool
  cb_index :: jsnum
  calls :: "call list"

text \<open>\<^verbatim>\<open>const bound = (i) => Math.max(0, Math.min(slides.length - 1, i))\<close>\<close>

definition bound :: "Instance \<Rightarrow> jsnum \<Rightarrow> jsnum" where
  "bound st i =
     Math_max [Fin 0,
       Math_min [js_sub (Fin (of_nat (length (slides (props st))))) (Fin 1), i]]"

text \<open>
  The effect with dependencies \<open>[index, isPresenter]\<close>: a presenter republishes its
  presence record.
\<close>

definition trackEffect :: "Instance \<Rightarrow> Instance" where
  "trackEffect st =
     (case channelRef st of
        None \<Rightarrow> st
      | Some channel \<Rightarrow>
          if isPresenter (props st)
          then st\<lparr>calls := calls st @ [Track channel ''presenter'' (index st)]\<rparr>
          else st)"

text \<open>
  \<open>setIndex(v)\<close> followed by the render it causes: nothing happens when the value is
  the one already held; otherwise the index changes and the effect above runs.
\<close>

definition setIndex :: "jsnum \<Rightarrow> Instance \<Rightarrow> Instance" where
  "setIndex v st = (if v = index st then st else trackEffect (st\<lparr>index := v\<rparr>))"

definition setLiveFollow :: "bool \<Rightarrow> Instance \<Rightarrow> Instance" where
  "setLiveFollow b st = st\<lparr>liveFollow := b\<rparr>"

definition go :: "jsnum \<Rightarrow> Instance \<Rightarrow> Instance" where
  "go i st = setIndex (bound st i) st"

definition broadcast :: "jsnum \<Rightarrow> Instance \<Rightarrow> Instance" where
  "broadcast i st =
     (case channelRef st of
        None \<Rightarrow> st
      | Some channel \<Rightarrow> st\<lparr>calls := calls st @ [Send channel i]\<rparr>)"

text \<open>
  \<open>next\<close> and \<open>prev\<close>: the broadcast is sent inside the handler, the state update is
  applied when the handler has returned.
\<close>

definition next_slide :: "Instance \<Rightarrow> Instance" where
  "next_slide st =
     (let i = bound st (js_add (index st) (Fin 1))
      in setIndex i (if isPresenter (props st) then broadcast i st else st))"

definition prev_slide :: "Instance \<Rightarrow> Instance" where
  "prev_slide st =
     (let i = bound st (js_sub (index st) (Fin 1))
      in setIndex i (if isPresenter (props st) then broadcast i st else st))"

definition reSync :: "Instance \<Rightarrow> Instance" where
  "reSync st =
     (let st1 = setLiveFollow True st
      in case channelRef st1 of
           None \<Rightarrow> st1
         | Some channel \<Rightarrow>
             st1\<lparr>calls := calls st1 @
               [Track channel (if isPresenter (props st1) then ''presenter'' else ''viewer'')
                  (index st1)]\<rparr>)"

subsection \<open>The channel effect and its callbacks\<close>

definition channelEffect :: "Instance \<Rightarrow> Instance" where
  "channelEffect st =
     (let channel = ''slides:'' @ roomId (props st)
      in st\<lparr>channelRef := Some channel,
            cb_liveFollow := liveFollow st,
            cb_index := index st,
            calls := calls st @ [Subscribe channel]\<rparr>)"

definition channelCleanup :: "Instance \<Rightarrow> Instance" where
  "channelCleanup st =
     (case channelRef st of
        None \<Rightarrow> st
      | Some channel \<Rightarrow> st\<lparr>calls := calls st @ [Unsubscribe channel]\<rparr>)"

text \<open>
  The callback for broadcast event \<open>slide\<close>; \<open>payload\<close> is the message object:
  \<^verbatim>\<open>if (!liveFollow) return;
  const next = Number(payload.payload?.index ?? 0);
  if (!Number.isNaN(next)) setIndex(bound(next));\<close>
\<close>

definition onBroadcastSlide :: "json \<Rightarrow> Instance \<Rightarrow> Instance" where
  "onBroadcastSlide payload st =
     (if \<not> cb_liveFollow st then st
      else
        let nxt = Number (nullish (optChain (getProp payload ''payload'') ''index'') (JNum 0))
        in if \<not> Number_isNaN nxt then setIndex (bound st nxt) st else st)"

text \<open>
  The callback for presence event \<open>sync\<close>; \<open>state\<close> is \<open>channel.presenceState()\<close>, the
  presence records of every key.
\<close>

definition onPresenceSync :: "(string \<times> json list) list \<Rightarrow> Instance \<Rightarrow> Instance" where
  "onPresenceSync state st =
     (if isPresenter (props st) then st
      else
        let presenters =
              filter (\<lambda>p. optChain (Some p) ''role'' = Some (JStr ''presenter''))
                (concat (map snd state));
            latestIdx =
              (if length presenters > 0
               then Math_max
                      (map (\<lambda>p. case optChain (Some p) ''index'' of
                                   Some (JNum r) \<Rightarrow> Fin r
                                 | _ \<Rightarrow> Fin 0)
                         presenters)
               else Fin 0)
        in setIndex (bound st latestIdx) st)"

text \<open>The callback given to \<open>channel.subscribe\<close>.\<close>

definition onSubscribeStatus :: "string \<Rightarrow> Instance \<Rightarrow> Instance" where
  "onSubscribeStatus status st =
     (if status = ''SUBSCRIBED'' then
        (case channelRef st of
           None \<Rightarrow> st
         | Some channel \<Rightarrow>
             st\<lparr>calls := calls st @
               [Track channel (if isPresenter (props st) then ''presenter'' else ''viewer'')
                  (cb_index st)] @
               (if isPresenter (props st) then [Send channel (cb_index st)] else [])\<rparr>)
      else st)"

text \<open>The key listener, installed for a presenter only.\<close>

definition onKey :: "string \<Rightarrow> Instance \<Rightarrow> Instance" where
  "onKey key st =
     (if \<not> isPresenter (props st) then st
      else
        let st1 = (if key = ''ArrowRight'' \<or> toLowerCase key = ''d'' then next_slide st else st)
        in if key = ''ArrowLeft'' \<or> toLowerCase key = ''a'' then prev_slide st1 else st1)"

subsection \<open>Mounting, new props, and runs of events\<close>

definition mount :: "Props \<Rightarrow> Instance" where
  "mount p =
     trackEffect (channelEffect
       \<lparr>props = p, index = Fin 0, liveFollow = True, channelRef = None,
        cb_liveFollow = True, cb_index = Fin 0, calls = []\<rparr>)"

text \<open>
  A render with a new room or role: the channel effect is cleaned up and run again when
  one of its dependencies changed, and the presence effect runs when the role changed.
\<close>

definition setProps :: "string \<Rightarrow> bool \<Rightarrow> Instance \<Rightarrow> Instance" where
  "setProps room presenter st =
     (let roomChanged = (room \<noteq> roomId (props st));
          roleChanged = (presenter \<noteq> isPresenter (props st));
          st1 = st\<lparr>props := (props st)\<lparr>roomId := room, isPresenter := presenter\<rparr>\<rparr>;
          st2 = (if roomChanged \<or> roleChanged then channelEffect (channelCleanup st1) else st1)
      in if roleChanged then trackEffect st2 else st2)"

datatype event =
    ClickNext
  | ClickPrev
  | CheckFollow bool
  | ClickReSync
  | KeyDown string
  | BroadcastSlide json
  | PresenceSync "(string \<times> json list) list"
  | SubscribeStatus string
  | NewProps string bool

text \<open>The re-sync button is rendered only while \<open>liveFollow\<close> is false.\<close>

fun step :: "event \<Rightarrow> Instance \<Rightarrow> Instance" where
  "step ClickNext st = next_slide st"
| "step ClickPrev st = prev_slide st"
| "step (CheckFollow b) st = setLiveFollow b st"
| "step ClickReSync st = (if liveFollow st then st else reSync st)"
| "step (KeyDown key) st = onKey key st"
| "step (BroadcastSlide payload) st = onBroadcastSlide payload st"
| "step (PresenceSync state) st = onPresenceSync state st"
| "step (SubscribeStatus status) st = onSubscribeStatus status st"
| "step (NewProps room presenter) st = setProps room presenter st"

definition run :: "event list \<Rightarrow> Instance \<Rightarrow> Instance" where
  "run evs st = foldl (\<lambda>s e. step e s) st evs"

subsection \<open>Concrete inputs\<close>

definition deck :: "nat \<Rightarrow> Slide list" where
  "deck n = map (\<lambda>k. \<lparr>src = ''/slides/slide.png'', alt = None\<rparr>) [0..<n]"

definition slideMessage :: "json \<Rightarrow> json" where
  "slideMessage i =
     JObj [(''type'', JStr ''broadcast''), (''event'', JStr ''slide''),
           (''payload'', JObj [(''index'', i)])]"

definition presenceRecord :: "string \<Rightarrow> json \<Rightarrow> json" where
  "presenceRecord role i = JObj [(''role'', JStr role), (''index'', i)]"

subsection \<open>The specification's formulas\<close>

text \<open>
  The specification states navigation as \<open>max(0, min(slideCount-1, i))\<close> and presence
  reconciliation as the maximum index reported by the records tagged \<open>presenter\<close>,
  clamped, with \<open>0\<close> when there is none. These are those formulas over the rationals,
  written from the specification's words, for comparison with the code.
\<close>

definition spec_clamp :: "nat \<Rightarrow> rat \<Rightarrow> rat" where
  "spec_clamp slideCount i = max 0 (min (of_nat slideCount - 1) i)"

definition spec_reported_index :: "json \<Rightarrow> rat option" where
  "spec_reported_index p = (case getProp p ''index'' of Some (JNum r) \<Rightarrow> Some r | _ \<Rightarrow> None)"

definition spec_presenter_indices :: "(string \<times> json list) list \<Rightarrow> rat list" where
  "spec_presenter_indices state =
     List.map_filter spec_reported_index
       (filter (\<lambda>p. getProp p ''role'' = Some (JStr ''presenter'')) (concat (map snd state)))"

definition spec_presence_target :: "nat \<Rightarrow> (string \<times> json list) list \<Rightarrow> rat" where
  "spec_presence_target slideCount state =
     (if spec_presenter_indices state = [] then 0
      else spec_clamp slideCount (Max (set (spec_presenter_indices state))))"

definition in_range :: "Instance \<Rightarrow> bool" where
  "in_range st =
     (case index st of
        Fin r \<Rightarrow> 0 \<le> r \<and> r \<le> of_nat (length (slides (props st))) - 1
      | _ \<Rightarrow> False)"

subsection \<open>Concrete rooms and messages\<close>

definition exampleViewer :: Props where
  "exampleViewer = \<lparr>roomId = ''demo'', slides = deck 6, isPresenter = False\<rparr>"

definition examplePresenter :: Props where
  "examplePresenter = \<lparr>roomId = ''demo'', slides = deck 6, isPresenter = True\<rparr>"

definition threePresenters :: "(string \<times> json list) list" where
  "threePresenters =
     [(''u_a1'', [presenceRecord ''presenter'' (JNum 2)]),
      (''u_b2'', [presenceRecord ''presenter'' (JNum 5), presenceRecord ''viewer'' (JNum 9)]),
      (''u_c3'', [presenceRecord ''presenter'' (JNum 1)])]"

definition viewersOnly :: "(string \<times> json list) list" where
  "viewersOnly = [(''u_d4'', [presenceRecord ''viewer'' (JNum 4)])]"

definition followingAtThree :: Instance where
  "followingAtThree = run [BroadcastSlide (slideMessage (JNum 3))] (mount exampleViewer)"

definition unfollowedAtOne :: Instance where
  "unfollowedAtOne = run [ClickNext, CheckFollow False] (mount exampleViewer)"

text \<open>The channel held by \<open>channelRef\<close> is the one of the current room.\<close>

definition channel_open :: "Instance \<Rightarrow> bool" where
  "channel_open st = (channelRef st = Some (''slides:'' @ roomId (props st)))"

section \<open>Properties\<close>

subsection \<open>Numbers and clamping\<close>

lemma Math_min_pair_Fin: "Math_min [Fin a, Fin b] = Fin (min a b)"
  by (simp add: Math_min_def min_def)

lemma Math_max_pair_Fin: "Math_max [Fin a, Fin b] = Fin (max a b)"
  by (simp add: Math_max_def max_def)

lemma bound_Fin:
  "bound st (Fin r) = Fin (spec_clamp (length (slides (props st))) r)"
  by (simp add: bound_def js_sub_def Math_min_pair_Fin Math_max_pair_Fin spec_clamp_def)

lemma bound_PosInf:
  "bound st PosInf = Fin (max 0 (of_nat (length (slides (props st))) - 1))"
  by (simp add: bound_def js_sub_def Math_min_def Math_max_def max_def)

lemma bound_NegInf: "bound st NegInf = Fin 0"
  by (simp add: bound_def js_sub_def Math_min_def Math_max_def)

lemma bound_NaN: "bound st NaN = NaN"
  by (simp add: bound_def js_sub_def Math_min_def Math_max_def)

lemma foldl_max_Fin:
  "foldl (\<lambda>highest number. if js_lt highest number then number else highest) (Fin a) (map Fin xs)
     = Fin (fold max xs a)"
  by (induction xs arbitrary: a) (auto simp: max_def)

lemma Math_max_Fin:
  "xs \<noteq> [] \<Longrightarrow> Math_max (map Fin xs) = Fin (Max (set xs))"
proof (cases xs)
  case Nil
  moreover assume "xs \<noteq> []"
  ultimately show ?thesis by simp
next
  case (Cons a as)
  have "NaN \<notin> set (map Fin xs)" by auto
  then have "Math_max (map Fin xs) = Fin (fold max as a)"
    unfolding Math_max_def using Cons by (simp add: foldl_max_Fin)
  also have "fold max as a = Max (set xs)"
    using Cons Max.set_eq_fold [of a as] by simp
  finally show ?thesis .
qed

lemma spec_clamp_absorbs_zero: "spec_clamp n (max 0 x) = spec_clamp n x"
  by (simp add: spec_clamp_def max_def min_def)

lemma spec_clamp_zero: "spec_clamp n 0 = 0"
  by (simp add: spec_clamp_def max_def min_def)

lemma spec_clamp_bounds:
  assumes "0 < n"
  shows "0 \<le> spec_clamp n i" and "spec_clamp n i \<le> of_nat n - 1"
  using assms by (simp_all add: spec_clamp_def)

subsection \<open>What each operation leaves alone\<close>

lemma mount_fields:
  "props (mount p) = p" "index (mount p) = Fin 0" "liveFollow (mount p)"
  "cb_liveFollow (mount p)" "channelRef (mount p) = Some (''slides:'' @ roomId p)"
  by (simp_all add: mount_def channelEffect_def trackEffect_def Let_def)

lemma length_deck: "length (deck n) = n"
  by (simp add: deck_def)

lemma trackEffect_fields:
  "props (trackEffect st) = props st" "index (trackEffect st) = index st"
  "channelRef (trackEffect st) = channelRef st" "liveFollow (trackEffect st) = liveFollow st"
  by (simp_all add: trackEffect_def split: option.splits)

lemma broadcast_fields:
  "props (broadcast i st) = props st" "index (broadcast i st) = index st"
  "channelRef (broadcast i st) = channelRef st" "liveFollow (broadcast i st) = liveFollow st"
  by (simp_all add: broadcast_def split: option.splits)

lemma setIndex_fields:
  "props (setIndex v st) = props st" "index (setIndex v st) = v"
  "channelRef (setIndex v st) = channelRef st" "liveFollow (setIndex v st) = liveFollow st"
  by (simp_all add: setIndex_def trackEffect_fields)

lemma nav_fields:
  "props (next_slide st) = props st" "channelRef (next_slide st) = channelRef st"
  "props (prev_slide st) = props st" "channelRef (prev_slide st) = channelRef st"
  by (simp_all add: next_slide_def prev_slide_def Let_def setIndex_fields broadcast_fields)

lemma onKey_fields:
  "props (onKey key st) = props st" "channelRef (onKey key st) = channelRef st"
  by (simp_all add: onKey_def Let_def nav_fields)

lemma reSync_fields:
  "props (reSync st) = props st" "channelRef (reSync st) = channelRef st"
  "index (reSync st) = index st"
  by (simp_all add: reSync_def setLiveFollow_def Let_def split: option.splits)

lemma onBroadcastSlide_fields:
  "props (onBroadcastSlide m st) = props st" "channelRef (onBroadcastSlide m st) = channelRef st"
  by (simp_all add: onBroadcastSlide_def Let_def setIndex_fields)

lemma onPresenceSync_fields:
  "props (onPresenceSync s st) = props st" "channelRef (onPresenceSync s st) = channelRef st"
  by (simp_all add: onPresenceSync_def Let_def setIndex_fields)

lemma onSubscribeStatus_fields:
  "props (onSubscribeStatus s st) = props st"
  "channelRef (onSubscribeStatus s st) = channelRef st"
  "index (onSubscribeStatus s st) = index st"
  by (simp_all add: onSubscribeStatus_def split: option.splits)

lemma setProps_fields:
  "slides (props (setProps r b st)) = slides (props st)"
  "index (setProps r b st) = index st"
  "roomId (props (setProps r b st)) = r"
  by (simp_all add: setProps_def Let_def trackEffect_fields channelEffect_def channelCleanup_def
      split: option.splits)

lemma setProps_channel:
  assumes "channelRef st = Some (''slides:'' @ roomId (props st))"
  shows "channelRef (setProps r b st) = Some (''slides:'' @ r)"
  using assms
  by (auto simp add: setProps_def Let_def trackEffect_fields channelEffect_def channelCleanup_def
      split: option.splits)

lemma calls_setIndex:
  "calls (setIndex v st)
     = calls st @
         (if v \<noteq> index st \<and> isPresenter (props st)
          then (case channelRef st of None \<Rightarrow> [] | Some c \<Rightarrow> [Track c ''presenter'' v])
          else [])"
  by (simp add: setIndex_def trackEffect_def split: option.splits)

lemma calls_broadcast:
  "channelRef st = Some channel \<Longrightarrow> calls (broadcast i st) = calls st @ [Send channel i]"
  by (simp add: broadcast_def)

lemma bound_broadcast: "bound (broadcast x st) y = bound st y"
  by (simp add: bound_def broadcast_fields)

lemma index_navigation:
  "index (next_slide st) = bound st (js_add (index st) (Fin 1))"
  "index (prev_slide st) = bound st (js_sub (index st) (Fin 1))"
  by (simp_all add: next_slide_def prev_slide_def Let_def setIndex_fields bound_broadcast)

lemma viewer_navigation:
  assumes "\<not> isPresenter (props st)"
  shows "calls (next_slide st) = calls st" and "calls (prev_slide st) = calls st"
    and "index (next_slide st) = bound st (js_add (index st) (Fin 1))"
    and "index (prev_slide st) = bound st (js_sub (index st) (Fin 1))"
  using assms
  by (simp_all add: next_slide_def prev_slide_def Let_def calls_setIndex setIndex_fields)

lemma presenter_navigation:
  assumes "isPresenter (props st)" and "channelRef st = Some channel"
  shows "calls (next_slide st)
           = calls st @ Send channel (index (next_slide st))
               # (if index (next_slide st) = index st then []
                  else [Track channel ''presenter'' (index (next_slide st))])"
    and "calls (prev_slide st)
           = calls st @ Send channel (index (prev_slide st))
               # (if index (prev_slide st) = index st then []
                  else [Track channel ''presenter'' (index (prev_slide st))])"
  using assms
  by (simp_all add: next_slide_def prev_slide_def Let_def calls_setIndex setIndex_fields
      broadcast_fields calls_broadcast bound_broadcast)

lemma step_channel_open: "channel_open st \<Longrightarrow> channel_open (step e st)"
  by (cases e)
    (simp_all add: channel_open_def nav_fields onKey_fields reSync_fields setLiveFollow_def
      onBroadcastSlide_fields onPresenceSync_fields onSubscribeStatus_fields
      setProps_fields setProps_channel)

lemma run_snoc: "run (evs @ [e]) st = step e (run evs st)"
  by (simp add: run_def)

lemma run_channel_open: "channel_open (run evs (mount p))"
proof (induction evs rule: rev_induct)
  case Nil
  show ?case by (simp add: run_def channel_open_def mount_fields)
next
  case (snoc e evs)
  then show ?case by (simp add: run_snoc step_channel_open)
qed

subsection \<open>The broadcast callback\<close>

lemma payload_index_of_message:
  "optChain (getProp (slideMessage v) ''payload'') ''index'' = Some v"
  by (simp add: slideMessage_def optChain_def)

lemma nullish_Some: "nullish (Some v) d = (if v = JNull then d else v)"
  by (cases v) (simp_all add: nullish_def)

lemma broadcast_numeric:
  assumes "cb_liveFollow st"
  shows "index (onBroadcastSlide (slideMessage (JNum i)) st)
           = Fin (spec_clamp (length (slides (props st))) i)"
  using assms
  by (simp add: onBroadcastSlide_def payload_index_of_message nullish_Some Number_isNaN_def
      setIndex_fields bound_Fin)

lemma Number_nullish: "Number (nullish (Some v) (JNum 0)) = Number v"
  by (cases v) (simp_all add: nullish_def)

lemma trim_whitespace:
  assumes "list_all isStrWhiteSpaceChar s"
  shows "trim s = []"
proof -
  have "\<forall>x \<in> set (rev s). isStrWhiteSpaceChar x"
    using assms by (simp add: list_all_iff)
  then have "dropWhile isStrWhiteSpaceChar (rev s) = []"
    by (simp only: dropWhile_eq_Nil_conv)
  then show ?thesis by (simp only: trim_def rev.simps dropWhile.simps)
qed

lemma Number_whitespace: "list_all isStrWhiteSpaceChar s \<Longrightarrow> Number (JStr s) = Fin 0"
  by (simp add: StringToNumber_def trim_whitespace)

lemma StringToNumber_abc: "StringToNumber ''abc'' = NaN"
  by code_simp

lemma broadcast_applied:
  assumes "cb_liveFollow st" and "Number v \<noteq> NaN"
  shows "index (onBroadcastSlide (slideMessage v) st) = bound st (Number v)"
  using assms
  by (simp add: onBroadcastSlide_def payload_index_of_message Number_nullish Number_isNaN_def
      setIndex_fields)

lemma broadcast_dropped:
  assumes "Number v = NaN"
  shows "onBroadcastSlide (slideMessage v) st = st"
  using assms
  by (simp add: onBroadcastSlide_def payload_index_of_message Number_nullish Number_isNaN_def)

lemma broadcast_absent:
  assumes "cb_liveFollow st" and "optChain (getProp m ''payload'') ''index'' = None"
  shows "index (onBroadcastSlide m st) = Fin 0"
  using assms
  by (simp add: onBroadcastSlide_def nullish_def Number_isNaN_def setIndex_fields bound_Fin
      spec_clamp_zero)

lemma cb_setIndex: "cb_liveFollow (setIndex v st) = cb_liveFollow st"
  by (simp add: setIndex_def trackEffect_def split: option.splits)

lemma cb_broadcast: "cb_liveFollow (broadcast i st) = cb_liveFollow st"
  by (simp add: broadcast_def split: option.splits)

lemma cb_navigation:
  "cb_liveFollow (next_slide st) = cb_liveFollow st"
  "cb_liveFollow (prev_slide st) = cb_liveFollow st"
  by (simp_all add: next_slide_def prev_slide_def Let_def cb_setIndex cb_broadcast)

lemma cb_handlers:
  "cb_liveFollow (onKey key st) = cb_liveFollow st"
  "cb_liveFollow (reSync st) = cb_liveFollow st"
  "cb_liveFollow (setLiveFollow b st) = cb_liveFollow st"
  "cb_liveFollow (onBroadcastSlide m st) = cb_liveFollow st"
  "cb_liveFollow (onPresenceSync s st) = cb_liveFollow st"
  "cb_liveFollow (onSubscribeStatus u st) = cb_liveFollow st"
  by (simp_all add: onKey_def reSync_def setLiveFollow_def onBroadcastSlide_def
      onPresenceSync_def onSubscribeStatus_def Let_def cb_setIndex cb_navigation
      split: option.splits)

lemma cb_liveFollow_step:
  assumes "cb_liveFollow st" and "\<And>r b. e \<noteq> NewProps r b"
  shows "cb_liveFollow (step e st)"
  using assms by (cases e) (auto simp add: cb_navigation cb_handlers)

lemma callbacks_keep_mount_flag:
  assumes "\<And>r b. NewProps r b \<notin> set evs"
  shows "cb_liveFollow (run evs (mount p))"
  using assms
proof (induction evs rule: rev_induct)
  case Nil
  show ?case by (simp add: run_def mount_fields)
next
  case (snoc e evs)
  then have "cb_liveFollow (run evs (mount p))" by simp
  moreover have "e \<noteq> NewProps r b" for r b using snoc.prems [of r b] by auto
  ultimately show ?case by (simp add: run_snoc cb_liveFollow_step)
qed

subsection \<open>Presence reconciliation\<close>

lemma optChain_Some: "optChain (Some p) k = getProp p k"
  by (cases p) (simp_all add: optChain_def)

lemma code_index_eq:
  "(case getProp p ''index'' of Some (JNum r) \<Rightarrow> Fin r | _ \<Rightarrow> Fin 0)
     = Fin (case spec_reported_index p of Some r \<Rightarrow> r | None \<Rightarrow> 0)"
  by (simp add: spec_reported_index_def split: option.splits json.splits)

lemma set_map_filter: "set (List.map_filter f xs) = {y. \<exists>x \<in> set xs. f x = Some y}"
  by (induction xs) (auto simp: map_filter_def)

lemma max_with_defaults:
  assumes "ps \<noteq> []"
  shows "max 0 (Max (set (map (\<lambda>p. case spec_reported_index p of Some r \<Rightarrow> r | None \<Rightarrow> (0::rat)) ps)))
           = (if List.map_filter spec_reported_index ps = [] then 0
              else max 0 (Max (set (List.map_filter spec_reported_index ps))))"
proof -
  let ?zs = "map (\<lambda>p. case spec_reported_index p of Some r \<Rightarrow> r | None \<Rightarrow> (0::rat)) ps"
  let ?ns = "List.map_filter spec_reported_index ps"
  have ne: "set ?zs \<noteq> {}" using assms by simp
  have sub1: "set ?zs \<subseteq> insert 0 (set ?ns)"
  proof
    fix z assume "z \<in> set ?zs"
    then obtain p where p: "p \<in> set ps"
      and z: "z = (case spec_reported_index p of Some r \<Rightarrow> r | None \<Rightarrow> 0)"
      by auto
    show "z \<in> insert 0 (set ?ns)"
    proof (cases "spec_reported_index p")
      case None
      then show ?thesis using z by simp
    next
      case (Some r)
      then have "r \<in> set ?ns" using p by (auto simp: set_map_filter)
      then show ?thesis using z Some by simp
    qed
  qed
  have sub2: "set ?ns \<subseteq> set ?zs"
  proof
    fix y assume "y \<in> set ?ns"
    then obtain p where "p \<in> set ps" and "spec_reported_index p = Some y"
      by (auto simp: set_map_filter)
    then show "y \<in> set ?zs" by (force simp: image_iff)
  qed
  have eq: "insert 0 (set ?zs) = insert 0 (set ?ns)"
    using sub1 sub2 by blast
  have "max 0 (Max (set ?zs)) = Max (insert 0 (set ?zs))"
    using ne by simp
  also have "\<dots> = Max (insert 0 (set ?ns))" by (simp only: eq)
  also have "\<dots> = (if ?ns = [] then 0 else max 0 (Max (set ?ns)))"
    by simp
  finally show ?thesis .
qed

lemma presence_index:
  assumes "\<not> isPresenter (props st)"
  shows "index (onPresenceSync state st)
           = Fin (spec_presence_target (length (slides (props st))) state)"
proof -
  let ?n = "length (slides (props st))"
  let ?ps = "filter (\<lambda>p. getProp p ''role'' = Some (JStr ''presenter'')) (concat (map snd state))"
  let ?zs = "map (\<lambda>p. case spec_reported_index p of Some r \<Rightarrow> r | None \<Rightarrow> (0::rat)) ?ps"
  have ns: "spec_presenter_indices state = List.map_filter spec_reported_index ?ps"
    by (simp add: spec_presenter_indices_def)
  have codemap: "map (\<lambda>p. case getProp p ''index'' of Some (JNum r) \<Rightarrow> Fin r | _ \<Rightarrow> Fin 0) ?ps
                   = map Fin ?zs"
    by (simp add: code_index_eq)
  show ?thesis
  proof (cases "?ps = []")
    case True
    then have "spec_presenter_indices state = []" using ns by (simp add: map_filter_def)
    then have "spec_presence_target ?n state = 0" by (simp add: spec_presence_target_def)
    moreover have "index (onPresenceSync state st) = bound st (Fin 0)"
      using assms True by (simp add: onPresenceSync_def optChain_Some setIndex_fields)
    ultimately show ?thesis by (simp add: bound_Fin spec_clamp_zero)
  next
    case False
    then have zs: "?zs \<noteq> []" by simp
    have "index (onPresenceSync state st) = bound st (Math_max (map Fin ?zs))"
      using assms False by (simp add: onPresenceSync_def optChain_Some setIndex_fields codemap Let_def)
    also have "\<dots> = Fin (spec_clamp ?n (Max (set ?zs)))"
      using Math_max_Fin [OF zs] by (simp add: bound_Fin)
    also have "spec_clamp ?n (Max (set ?zs)) = spec_clamp ?n (max 0 (Max (set ?zs)))"
      by (simp only: spec_clamp_absorbs_zero)
    also have "max 0 (Max (set ?zs))
                 = (if spec_presenter_indices state = [] then 0
                    else max 0 (Max (set (spec_presenter_indices state))))"
      using max_with_defaults [OF False] ns by simp
    also have "spec_clamp ?n (if spec_presenter_indices state = [] then 0
                    else max 0 (Max (set (spec_presenter_indices state))))
                 = spec_presence_target ?n state"
      by (simp add: spec_presence_target_def spec_clamp_zero spec_clamp_absorbs_zero)
    finally show ?thesis .
  qed
qed

lemma spec_presence_target_bounds:
  assumes "0 < n"
  shows "0 \<le> spec_presence_target n state" and "spec_presence_target n state \<le> of_nat n - 1"
  using assms by (simp_all add: spec_presence_target_def spec_clamp_bounds)

lemma targets:
  "spec_presenter_indices threePresenters = [2, 5, 1]"
  "spec_presenter_indices viewersOnly = []"
  "spec_presenter_indices [] = []"
  by (simp_all add: spec_presenter_indices_def threePresenters_def viewersOnly_def
      presenceRecord_def map_filter_def spec_reported_index_def)

subsection \<open>The index stays in range\<close>

lemma in_range_iff:
  "in_range st \<longleftrightarrow>
     (\<exists>r. index st = Fin r \<and> 0 \<le> r \<and> r \<le> of_nat (length (slides (props st))) - 1)"
  by (cases "index st") (simp_all add: in_range_def)

lemma bound_in_range:
  assumes "v \<noteq> NaN" and "slides (props st) \<noteq> []"
  shows "\<exists>r. bound st v = Fin r \<and> 0 \<le> r \<and> r \<le> of_nat (length (slides (props st))) - 1"
proof (cases v)
  case NaN
  with assms(1) show ?thesis by simp
next
  case NegInf
  with assms(2) show ?thesis by (simp add: bound_NegInf Suc_le_eq)
next
  case (Fin r)
  with assms(2) show ?thesis by (simp add: bound_Fin spec_clamp_bounds)
next
  case PosInf
  with assms(2) show ?thesis by (simp add: bound_PosInf Suc_le_eq)
qed

lemma in_range_setIndex_bound:
  assumes "v \<noteq> NaN" and "slides (props st) \<noteq> []"
  shows "in_range (setIndex (bound st v) st)"
  using bound_in_range [OF assms] by (simp add: in_range_iff setIndex_fields)

lemma in_range_navigation:
  assumes "in_range st" and "slides (props st) \<noteq> []"
  shows "in_range (next_slide st)" and "in_range (prev_slide st)"
proof -
  from assms(1) obtain r where r: "index st = Fin r" by (auto simp: in_range_iff)
  have "js_add (index st) (Fin 1) \<noteq> NaN" and "js_sub (index st) (Fin 1) \<noteq> NaN"
    using r by (simp_all add: js_sub_def)
  then show "in_range (next_slide st)" and "in_range (prev_slide st)"
    using bound_in_range [OF _ assms(2)]
    by (simp_all add: in_range_iff index_navigation nav_fields)
qed

lemma in_range_onKey:
  assumes "in_range st" and "slides (props st) \<noteq> []"
  shows "in_range (onKey key st)"
  using assms by (simp add: onKey_def Let_def in_range_navigation nav_fields)

lemma in_range_onBroadcastSlide:
  assumes "in_range st" and "slides (props st) \<noteq> []"
  shows "in_range (onBroadcastSlide m st)"
  using assms by (simp add: onBroadcastSlide_def Let_def Number_isNaN_def in_range_setIndex_bound)

lemma in_range_onPresenceSync:
  assumes "in_range st" and "slides (props st) \<noteq> []"
  shows "in_range (onPresenceSync state st)"
proof (cases "isPresenter (props st)")
  case True
  then show ?thesis using assms(1) by (simp add: onPresenceSync_def)
next
  case False
  then show ?thesis
    using assms(2) presence_index [OF False, of state]
    by (simp add: in_range_iff onPresenceSync_fields spec_presence_target_bounds)
qed

lemma in_range_same:
  assumes "in_range st" and "index st' = index st" and "slides (props st') = slides (props st)"
  shows "in_range st'"
  using assms by (simp add: in_range_iff)

lemma slides_step: "slides (props (step e st)) = slides (props st)"
  by (cases e)
    (simp_all add: nav_fields onKey_fields reSync_fields setLiveFollow_def
      onBroadcastSlide_fields onPresenceSync_fields onSubscribeStatus_fields setProps_fields)

lemma in_range_step:
  assumes "in_range st" and "slides (props st) \<noteq> []"
  shows "in_range (step e st)"
proof (cases e)
  case ClickNext
  then show ?thesis using assms by (simp add: in_range_navigation)
next
  case ClickPrev
  then show ?thesis using assms by (simp add: in_range_navigation)
next
  case (CheckFollow b)
  then show ?thesis using assms(1) by (simp add: setLiveFollow_def in_range_iff)
next
  case ClickReSync
  then show ?thesis
    using assms(1) in_range_same [of st "reSync st"] by (simp add: reSync_fields)
next
  case (KeyDown key)
  then show ?thesis using assms by (simp add: in_range_onKey)
next
  case (BroadcastSlide m)
  then show ?thesis using assms by (simp add: in_range_onBroadcastSlide)
next
  case (PresenceSync state)
  then show ?thesis using assms by (simp add: in_range_onPresenceSync)
next
  case (SubscribeStatus s)
  then show ?thesis
    using assms(1) in_range_same [of st "onSubscribeStatus s st"]
    by (simp add: onSubscribeStatus_fields)
next
  case (NewProps r b)
  then show ?thesis
    using assms(1) in_range_same [of st "setProps r b st"] by (simp add: setProps_fields)
qed

lemma slides_run: "slides (props (run evs st)) = slides (props st)"
  by (induction evs rule: rev_induct) (simp_all add: run_snoc slides_step, simp add: run_def)

section \<open>The claims\<close>

subsection \<open>Incoming slide broadcasts\<close>




text \<open>
  Claim C2. A viewer whose follow-live flag is false is to keep its index when a slide
  broadcast arrives. The callback tests the flag it captured when the channel effect
  ran, not the current one: below, a viewer unchecks follow-live after mounting, and the
  next broadcast still moves it from slide 0 to slide 3.
\<close>

theorem unfollowed_viewer_applies_broadcast:
  "\<not> isPresenter (props (run [CheckFollow False] (mount exampleViewer)))
   \<and> \<not> liveFollow (run [CheckFollow False] (mount exampleViewer))
   \<and> index (run [CheckFollow False] (mount exampleViewer)) = Fin 0
   \<and> index (run [CheckFollow False, BroadcastSlide (slideMessage (JNum 3))] (mount exampleViewer))
       = Fin 3"
  by (simp add: run_def setLiveFollow_def broadcast_numeric mount_fields exampleViewer_def
      length_deck spec_clamp_def)

text \<open>
  The captured flag is the one of the mount for as long as the room and the role stay
  the same, whatever the user does with the checkbox (\<open>callbacks_keep_mount_flag\<close>).
\<close>

text \<open>
  Claim C6, as amended. A slide-change notification is handled through the number
  \<open>n = Number(index ?? 0)\<close> of its payload index. When \<open>n\<close> is \<open>NaN\<close>, as for the string
  \<open>abc\<close>, an object, or an array of two or more elements, the \<open>NaN\<close> guard drops the
  notification and the recipient's state is unchanged: the index is not coerced to zero.
  When \<open>n\<close> is a number, a client that follows live sets its index to \<open>n\<close> clamped to
  the slide range. So a non-numeric index that converts to \<open>0\<close> (\<open>null\<close>, an absent index,
  \<open>false\<close>, the empty or a whitespace-only string, \<open>[]\<close> and \<open>[null]\<close>) does give index
  \<open>0\<close>, and one that converts to another number gives that number, clamped.
\<close>

theorem non_numeric_broadcast_ignored:
  "(Number v = NaN \<longrightarrow> onBroadcastSlide (slideMessage v) st = st)
   \<and> (liveFollow st \<and> cb_liveFollow st \<and> Number v = Fin r \<longrightarrow>
        index (onBroadcastSlide (slideMessage v) st)
          = Fin (spec_clamp (length (slides (props st))) r))
   \<and> (liveFollow st \<and> cb_liveFollow st \<and> Number v = PosInf \<longrightarrow>
        index (onBroadcastSlide (slideMessage v) st)
          = Fin (max 0 (of_nat (length (slides (props st))) - 1)))
   \<and> (liveFollow st \<and> cb_liveFollow st \<and> Number v = NegInf \<longrightarrow>
        index (onBroadcastSlide (slideMessage v) st) = Fin 0)
   \<and> (liveFollow st \<and> cb_liveFollow st \<and> optChain (getProp m ''payload'') ''index'' = None \<longrightarrow>
        index (onBroadcastSlide m st) = Fin 0)
   \<and> (v \<in> {JNull, JBool False, JArr [], JArr [JNull]}
        \<or> (\<exists>s. v = JStr s \<and> list_all isStrWhiteSpaceChar s) \<longrightarrow> Number v = Fin 0)
   \<and> (v = JStr ''abc'' \<or> (\<exists>kvs. v = JObj kvs) \<or> (\<exists>x y zs. v = JArr (x # y # zs)) \<longrightarrow>
        Number v = NaN)"
proof (intro conjI impI)
  assume "Number v = NaN"
  then show "onBroadcastSlide (slideMessage v) st = st" by (rule broadcast_dropped)
next
  assume "liveFollow st \<and> cb_liveFollow st \<and> Number v = Fin r"
  then show "index (onBroadcastSlide (slideMessage v) st)
               = Fin (spec_clamp (length (slides (props st))) r)"
    by (simp add: broadcast_applied bound_Fin)
next
  assume "liveFollow st \<and> cb_liveFollow st \<and> Number v = PosInf"
  then show "index (onBroadcastSlide (slideMessage v) st)
               = Fin (max 0 (of_nat (length (slides (props st))) - 1))"
    by (simp add: broadcast_applied bound_PosInf)
next
  assume "liveFollow st \<and> cb_liveFollow st \<and> Number v = NegInf"
  then show "index (onBroadcastSlide (slideMessage v) st) = Fin 0"
    by (simp add: broadcast_applied bound_NegInf)
next
  assume "liveFollow st \<and> cb_liveFollow st
            \<and> optChain (getProp m ''payload'') ''index'' = None"
  then show "index (onBroadcastSlide m st) = Fin 0"
    by (simp add: broadcast_absent)
next
  assume "v \<in> {JNull, JBool False, JArr [], JArr [JNull]}
            \<or> (\<exists>s. v = JStr s \<and> list_all isStrWhiteSpaceChar s)"
  then show "Number v = Fin 0"
    using Number_whitespace by auto
next
  assume "v = JStr ''abc'' \<or> (\<exists>kvs. v = JObj kvs) \<or> (\<exists>x y zs. v = JArr (x # y # zs))"
  then show "Number v = NaN"
    using StringToNumber_abc by auto
qed

theorem non_numeric_broadcast_ignored_witness:
  "index followingAtThree = Fin 3
   \<and> liveFollow followingAtThree \<and> cb_liveFollow followingAtThree
   \<and> onBroadcastSlide (slideMessage (JStr ''abc'')) followingAtThree = followingAtThree
   \<and> onBroadcastSlide (slideMessage (JObj [])) followingAtThree = followingAtThree
   \<and> index (onBroadcastSlide (slideMessage JNull) followingAtThree) = Fin 0
   \<and> index (onBroadcastSlide (slideMessage (JBool False)) followingAtThree) = Fin 0
   \<and> index (onBroadcastSlide (slideMessage (JStr [])) followingAtThree) = Fin 0
   \<and> index (onBroadcastSlide (slideMessage (JStr [CHR '' ''])) followingAtThree) = Fin 0
   \<and> index (onBroadcastSlide (slideMessage (JArr [])) followingAtThree) = Fin 0
   \<and> index (onBroadcastSlide (slideMessage (JArr [JNull])) followingAtThree) = Fin 0
   \<and> index (onBroadcastSlide (JObj [(''payload'', JObj [])]) followingAtThree) = Fin 0
   \<and> index (onBroadcastSlide (slideMessage (JBool True)) followingAtThree) = Fin 1
   \<and> index (onBroadcastSlide (slideMessage (JStr ''0x4'')) followingAtThree) = Fin 4
   \<and> index (onBroadcastSlide (slideMessage (JStr ''Infinity'')) followingAtThree) = Fin 5
   \<and> index (onBroadcastSlide (slideMessage (JStr ''-Infinity'')) followingAtThree) = Fin 0"
proof -
  have b: "liveFollow followingAtThree \<and> cb_liveFollow followingAtThree"
    and i: "index followingAtThree = Fin 3"
    and l: "length (slides (props followingAtThree)) = 6"
    by code_simp+
  have nan: "Number (JStr ''abc'') = NaN" "Number (JObj []) = NaN"
    by code_simp+
  have zero: "Number JNull = Fin 0" "Number (JBool False) = Fin 0"
    "Number (JStr []) = Fin 0" "Number (JStr [CHR '' '']) = Fin 0"
    "Number (JArr []) = Fin 0" "Number (JArr [JNull]) = Fin 0"
    by code_simp+
  have other: "Number (JBool True) = Fin 1" "Number (JStr ''0x4'') = Fin 4"
    and inf: "Number (JStr ''Infinity'') = PosInf"
    and minf: "Number (JStr ''-Infinity'') = NegInf"
    and absent: "optChain (getProp (JObj [(''payload'', JObj [])]) ''payload'') ''index'' = None"
    by code_simp+
  note t = non_numeric_broadcast_ignored [where st = followingAtThree]
  note dropped = t [THEN conjunct1, rule_format]
  note finite = t [THEN conjunct2, THEN conjunct1, rule_format]
  note pinf = t [THEN conjunct2, THEN conjunct2, THEN conjunct1, rule_format]
  note ninf = t [THEN conjunct2, THEN conjunct2, THEN conjunct2, THEN conjunct1, rule_format]
  note none = t [THEN conjunct2, THEN conjunct2, THEN conjunct2, THEN conjunct2,
      THEN conjunct1, rule_format]
  have z: "spec_clamp 6 0 = 0" "spec_clamp 6 1 = 1" "spec_clamp 6 4 = 4"
    "max 0 (rat_of_nat 6 - 1) = 5"
    by (simp_all add: spec_clamp_def)
  have d1: "onBroadcastSlide (slideMessage (JStr ''abc'')) followingAtThree = followingAtThree"
    by (rule dropped) (rule nan)
  have d2: "onBroadcastSlide (slideMessage (JObj [])) followingAtThree = followingAtThree"
    by (rule dropped) (rule nan)
  have f1: "index (onBroadcastSlide (slideMessage JNull) followingAtThree) = Fin 0"
    using finite [of JNull 0] b zero(1) l z by simp
  have f2: "index (onBroadcastSlide (slideMessage (JBool False)) followingAtThree) = Fin 0"
    using finite [of "JBool False" 0] b zero(2) l z by simp
  have f3: "index (onBroadcastSlide (slideMessage (JStr [])) followingAtThree) = Fin 0"
    using finite [of "JStr []" 0] b zero(3) l z by simp
  have f4: "index (onBroadcastSlide (slideMessage (JStr [CHR '' ''])) followingAtThree) = Fin 0"
    using finite [of "JStr [CHR '' '']" 0] b zero(4) l z by simp
  have f5: "index (onBroadcastSlide (slideMessage (JArr [])) followingAtThree) = Fin 0"
    using finite [of "JArr []" 0] b zero(5) l z by simp
  have f6: "index (onBroadcastSlide (slideMessage (JArr [JNull])) followingAtThree) = Fin 0"
    using finite [of "JArr [JNull]" 0] b zero(6) l z by simp
  have f7: "index (onBroadcastSlide (JObj [(''payload'', JObj [])]) followingAtThree) = Fin 0"
    using none [of "JObj [(''payload'', JObj [])]"] b absent by simp
  have f8: "index (onBroadcastSlide (slideMessage (JBool True)) followingAtThree) = Fin 1"
    using finite [of "JBool True" 1] b other(1) l z by simp
  have f9: "index (onBroadcastSlide (slideMessage (JStr ''0x4'')) followingAtThree) = Fin 4"
    using finite [of "JStr ''0x4''" 4] b other(2) l z by simp
  have f10: "index (onBroadcastSlide (slideMessage (JStr ''Infinity'')) followingAtThree) = Fin 5"
    using pinf [of "JStr ''Infinity''"] b inf l z by simp
  have f11: "index (onBroadcastSlide (slideMessage (JStr ''-Infinity'')) followingAtThree) = Fin 0"
    using ninf [of "JStr ''-Infinity''"] b minf by simp
  show ?thesis
    using b i d1 d2 f1 f2 f3 f4 f5 f6 f7 f8 f9 f10 f11 by (intro conjI) simp_all
qed

text \<open>
  The wording that a non-numeric index sets the index to zero does not hold: a viewer on
  slide 3 that receives the index \<open>abc\<close> stays on slide 3.
\<close>

theorem non_numeric_broadcast_counterexample:
  "Number (JStr ''abc'') = NaN
   \<and> index (run [BroadcastSlide (slideMessage (JNum 3)),
                  BroadcastSlide (slideMessage (JStr ''abc''))] (mount exampleViewer)) \<noteq> Fin 0"
  by code_simp

subsection \<open>Navigation\<close>

text \<open>
  Claim C3. After \<open>go(i)\<close> the index is \<open>max(0, min(slideCount-1, i))\<close>; after \<open>next\<close>
  and \<open>prev\<close> from index \<open>r\<close> it is that formula at the targets \<open>r + 1\<close> and \<open>r - 1\<close>.
\<close>

theorem navigation_is_clamp:
  assumes "index st = Fin r"
  shows "index (go (Fin i) st) = Fin (spec_clamp (length (slides (props st))) i)
       \<and> index (next_slide st) = Fin (spec_clamp (length (slides (props st))) (r + 1))
       \<and> index (prev_slide st) = Fin (spec_clamp (length (slides (props st))) (r - 1))"
proof -
  have "bound (if isPresenter (props st) then broadcast x st else st) y = bound st y" for x y
    by (simp add: bound_def broadcast_def split: option.splits)
  then show ?thesis
    using assms
    by (simp add: go_def next_slide_def prev_slide_def Let_def setIndex_fields bound_Fin js_sub_def)
qed

theorem navigation_is_clamp_witness:
  "index (mount exampleViewer) = Fin 0
   \<and> index (go (Fin 9) (mount exampleViewer)) = Fin 5
   \<and> index (next_slide (mount exampleViewer)) = Fin 1
   \<and> index (prev_slide (mount exampleViewer)) = Fin 0"
proof -
  have h: "index (mount exampleViewer) = Fin 0"
    by (simp add: mount_fields)
  have n: "length (slides (props (mount exampleViewer))) = 6"
    by (simp add: mount_fields exampleViewer_def length_deck)
  show ?thesis
    using navigation_is_clamp [OF h, of 9] h n by (simp add: spec_clamp_def)
qed

text \<open>
  Claim C8. \<open>next\<close> and \<open>prev\<close> of a viewer change the index to the clamped target and
  issue no call on the channel, so no broadcast; those of a presenter send one broadcast,
  of the new index, followed by the presence update when the index changed.
\<close>

theorem viewer_navigation_never_broadcasts:
  "(\<not> isPresenter (props st) \<and> index st = Fin r \<longrightarrow>
      calls (next_slide st) = calls st \<and> calls (prev_slide st) = calls st
      \<and> index (next_slide st) = Fin (spec_clamp (length (slides (props st))) (r + 1))
      \<and> index (prev_slide st) = Fin (spec_clamp (length (slides (props st))) (r - 1)))
   \<and> (isPresenter (props st) \<and> channelRef st = Some channel \<longrightarrow>
      calls (next_slide st)
        = calls st @ Send channel (index (next_slide st))
            # (if index (next_slide st) = index st then []
               else [Track channel ''presenter'' (index (next_slide st))])
      \<and> calls (prev_slide st)
        = calls st @ Send channel (index (prev_slide st))
            # (if index (prev_slide st) = index st then []
               else [Track channel ''presenter'' (index (prev_slide st))]))"
proof (intro conjI impI)
  assume v: "\<not> isPresenter (props st) \<and> index st = Fin r"
  then show "calls (next_slide st) = calls st" and "calls (prev_slide st) = calls st"
    by (simp_all add: viewer_navigation)
  from v show "index (next_slide st) = Fin (spec_clamp (length (slides (props st))) (r + 1))"
    by (simp add: viewer_navigation bound_Fin)
  from v show "index (prev_slide st) = Fin (spec_clamp (length (slides (props st))) (r - 1))"
    by (simp add: viewer_navigation bound_Fin js_sub_def)
next
  assume p: "isPresenter (props st) \<and> channelRef st = Some channel"
  then show "calls (next_slide st)
        = calls st @ Send channel (index (next_slide st))
            # (if index (next_slide st) = index st then []
               else [Track channel ''presenter'' (index (next_slide st))])"
    using presenter_navigation(1) [of st channel] by blast
  from p show "calls (prev_slide st)
        = calls st @ Send channel (index (prev_slide st))
            # (if index (prev_slide st) = index st then []
               else [Track channel ''presenter'' (index (prev_slide st))])"
    using presenter_navigation(2) [of st channel] by blast
qed

theorem viewer_navigation_never_broadcasts_witness:
  "\<not> isPresenter (props (mount exampleViewer)) \<and> index (mount exampleViewer) = Fin 0
   \<and> calls (next_slide (mount exampleViewer)) = [Subscribe ''slides:demo'']
   \<and> index (next_slide (mount exampleViewer)) = Fin 1
   \<and> isPresenter (props (mount examplePresenter))
   \<and> channelRef (mount examplePresenter) = Some ''slides:demo''
   \<and> calls (next_slide (mount examplePresenter))
       = [Subscribe ''slides:demo'', Track ''slides:demo'' ''presenter'' (Fin 0),
          Send ''slides:demo'' (Fin 1), Track ''slides:demo'' ''presenter'' (Fin 1)]"
proof -
  have v: "\<not> isPresenter (props (mount exampleViewer)) \<and> index (mount exampleViewer) = Fin 0"
    by (simp add: mount_fields exampleViewer_def)
  have p: "isPresenter (props (mount examplePresenter))
           \<and> channelRef (mount examplePresenter) = Some ''slides:demo''"
    by (simp add: mount_fields examplePresenter_def)
  have c: "calls (mount exampleViewer) = [Subscribe ''slides:demo'']"
    "calls (mount examplePresenter)
       = [Subscribe ''slides:demo'', Track ''slides:demo'' ''presenter'' (Fin 0)]"
    "index (mount examplePresenter) = Fin 0"
    "index (next_slide (mount examplePresenter)) = Fin 1"
    "length (slides (props (mount exampleViewer))) = 6"
    by code_simp+
  show ?thesis
    using viewer_navigation_never_broadcasts [of "mount exampleViewer" 0 "''slides:demo''"]
      viewer_navigation_never_broadcasts [of "mount examplePresenter" 0 "''slides:demo''"]
      v p c
    by (simp add: spec_clamp_def)
qed

subsection \<open>Presence reconciliation\<close>

text \<open>
  Claim C4. On a presence sync a viewer sets its index to the largest index reported by
  the records tagged \<open>presenter\<close>, clamped to the slide range, and to \<open>0\<close> when there is
  no such record: indices 2, 5 and 1 give 5 on six slides.
\<close>

theorem presence_sync_takes_max_presenter_index:
  assumes "\<not> isPresenter (props st)"
  shows "index (onPresenceSync state st)
           = Fin (spec_presence_target (length (slides (props st))) state)"
  using assms by (rule presence_index)

theorem presence_sync_takes_max_presenter_index_witness:
  "\<not> isPresenter (props (mount exampleViewer))
   \<and> index (onPresenceSync threePresenters (mount exampleViewer)) = Fin 5
   \<and> index (onPresenceSync [] (next_slide (mount exampleViewer))) = Fin 0"
proof -
  have v: "\<not> isPresenter (props (mount exampleViewer))"
    by (simp add: mount_fields exampleViewer_def)
  have v': "\<not> isPresenter (props (next_slide (mount exampleViewer)))"
    using v by (simp add: next_slide_def Let_def setIndex_fields)
  have n: "length (slides (props (mount exampleViewer))) = 6"
    by (simp add: mount_fields exampleViewer_def length_deck)
  show ?thesis
    using v presence_sync_takes_max_presenter_index [OF v, of threePresenters]
      presence_sync_takes_max_presenter_index [OF v', of "[]"] n
    by (simp add: spec_presence_target_def targets spec_clamp_def)
qed

text \<open>
  Claim C10. The presence callback does not read the follow-live flag: a viewer that has
  switched it off still has its index overwritten by the reconciled value on every
  presence sync, and reset to \<open>0\<close> when no record is tagged \<open>presenter\<close>.
\<close>

theorem presence_sync_ignores_follow_flag:
  assumes "\<not> isPresenter (props st)" and "\<not> liveFollow st"
  shows "index (onPresenceSync state st)
           = Fin (spec_presence_target (length (slides (props st))) state)
       \<and> (filter (\<lambda>p. getProp p ''role'' = Some (JStr ''presenter'')) (concat (map snd state)) = []
            \<longrightarrow> index (onPresenceSync state st) = Fin 0)"
proof -
  have "spec_presence_target n state = 0"
    if "filter (\<lambda>p. getProp p ''role'' = Some (JStr ''presenter'')) (concat (map snd state)) = []"
    for n
    using that by (simp add: spec_presence_target_def spec_presenter_indices_def map_filter_def)
  then show ?thesis using presence_index [OF assms(1)] by simp
qed

theorem presence_sync_ignores_follow_flag_witness:
  "\<not> isPresenter (props unfollowedAtOne) \<and> \<not> liveFollow unfollowedAtOne
   \<and> index unfollowedAtOne = Fin 1
   \<and> index (onPresenceSync threePresenters unfollowedAtOne) = Fin 5
   \<and> index (onPresenceSync viewersOnly unfollowedAtOne) = Fin 0"
proof -
  have v: "\<not> isPresenter (props unfollowedAtOne)" and f: "\<not> liveFollow unfollowedAtOne"
    and i: "index unfollowedAtOne = Fin 1"
    and n: "length (slides (props unfollowedAtOne)) = 6"
    by code_simp+
  have e: "filter (\<lambda>p. getProp p ''role'' = Some (JStr ''presenter''))
             (concat (map snd viewersOnly)) = []"
    by (simp add: viewersOnly_def presenceRecord_def)
  show ?thesis
    using presence_sync_ignores_follow_flag [OF v f, of threePresenters]
      presence_sync_ignores_follow_flag [OF v f, of viewersOnly] v f i n e
    by (simp add: spec_presence_target_def targets spec_clamp_def)
qed

subsection \<open>Re-sync\<close>

text \<open>
  Claim C7. In every state a mounted instance can reach, \<open>reSync\<close> switches follow-live
  on, leaves the index as it is, and issues exactly one call: the presence record with the
  client's role and current index, on the channel of the room.
\<close>

theorem reSync_republishes_presence_only:
  "liveFollow (reSync (run evs (mount p)))
   \<and> index (reSync (run evs (mount p))) = index (run evs (mount p))
   \<and> calls (reSync (run evs (mount p)))
       = calls (run evs (mount p)) @
           [Track (''slides:'' @ roomId (props (run evs (mount p))))
              (if isPresenter (props (run evs (mount p))) then ''presenter'' else ''viewer'')
              (index (run evs (mount p)))]"
  using run_channel_open [of evs p]
  by (simp add: channel_open_def reSync_def setLiveFollow_def Let_def)

subsection \<open>The index invariant\<close>

text \<open>
  Claim C9. With a non-empty slide list, after any sequence of clicks, key presses,
  follow-live changes, re-syncs, broadcasts, presence syncs, subscription callbacks and
  room or role changes, the index is a finite number between \<open>0\<close> and \<open>slideCount - 1\<close>.
\<close>

theorem index_always_in_range:
  assumes "slides p \<noteq> []"
  shows "in_range (run evs (mount p))"
proof (induction evs rule: rev_induct)
  case Nil
  show ?case using assms by (simp add: run_def in_range_iff mount_fields Suc_le_eq)
next
  case (snoc e evs)
  moreover have "slides (props (run evs (mount p))) \<noteq> []"
    using assms by (simp add: slides_run mount_fields)
  ultimately show ?case by (simp add: run_snoc in_range_step)
qed

theorem index_always_in_range_witness:
  "slides exampleViewer \<noteq> []
   \<and> in_range (run [ClickNext, BroadcastSlide (slideMessage (JNum 99)),
                    PresenceSync threePresenters, ClickPrev] (mount exampleViewer))"
proof -
  have h: "slides exampleViewer \<noteq> []"
    by (simp add: exampleViewer_def deck_def)
  show ?thesis
    using h index_always_in_range [OF h] by simp
qed

lemma example_run_index:
  "index (run [ClickNext, BroadcastSlide (slideMessage (JNum 99)),
               PresenceSync threePresenters, ClickPrev] (mount exampleViewer)) = Fin 4"
  by code_simp

subsection \<open>The presenter flag\<close>

text \<open>
  Claim C5. \<open>isPresenter\<close> is true if and only if the \<open>presenter\<close> parameter is present
  and its lower-cased string form is one of \<open>1\<close>, \<open>true\<close>, \<open>yes\<close>; every other value,
  and an absent parameter, gives false.
\<close>

theorem isPresenter_iff_literal:
  "isPresenterParam presenter \<longleftrightarrow>
     (\<exists>p. presenter = Some p \<and> toLowerCase p \<in> {''1'', ''true'', ''yes''})"
  by (cases presenter) (auto simp: isPresenterParam_def includes_arr_def)

lemma isPresenter_examples:
  "isPresenterParam (Some ''YES'') \<and> isPresenterParam (Some ''True'')
   \<and> isPresenterParam (Some ''1'') \<and> \<not> isPresenterParam (Some ''0'')
   \<and> \<not> isPresenterParam None \<and> \<not> isPresenterParam (Some ''on'')"
  by code_simp

end
